theory Spec2Isabelle
  imports Complex_Main "HOL-Library.AList"
begin

section \<open>The authoritative game server of mcx.js\<close>

text \<open>
  The server keeps two JavaScript objects used as dictionaries, \<open>players\<close> and
  \<open>bullets\<close>, a counter \<open>nextBulletId\<close> and the time of the last tick. Four
  callbacks change them: a connection, an \<open>input\<close> message, a disconnect, and the
  game loop's tick. Node runs each callback to completion, so every callback is a
  function from world to world.

  JavaScript numbers are modelled as follows: times (\<open>Date.now()\<close>, in
  milliseconds), health and respawn deadlines are \<open>int\<close>, and all the operations on
  them are exact in doubles. Positions, velocities and angles are \<open>real\<close>. The
  velocity of a player is computed as the code computes it, each operation rounded to
  the nearest double (\<open>round64\<close> below); the step \<open>dt\<close>, the integration of the
  positions and the trigonometry of a shot are left in real arithmetic, since nothing
  proved here depends on their rounding: the clamp and the comparisons are exact in
  doubles.
  \<open>NaN\<close> and the infinities are left out: a message arrives as JSON, which
  cannot carry them, and the code guards its one division.
  \<open>Date.now()\<close> and \<open>Math.random()\<close> are inputs of the callbacks.
\<close>

subsection \<open>Constants\<close>

definition WORLD_WIDTH :: real where "WORLD_WIDTH = 1200"
definition WORLD_HEIGHT :: real where "WORLD_HEIGHT = 800"
definition PLAYER_RADIUS :: real where "PLAYER_RADIUS = 16"
definition PLAYER_SPEED :: real where "PLAYER_SPEED = 220"
definition PLAYER_MAX_HEALTH :: int where "PLAYER_MAX_HEALTH = 100"
definition RESPAWN_TIME :: int where "RESPAWN_TIME = 2000"
definition BULLET_SPEED :: real where "BULLET_SPEED = 600"
definition BULLET_RADIUS :: real where "BULLET_RADIUS = 4"
definition BULLET_LIFETIME :: int where "BULLET_LIFETIME = 2000"
definition SHOOT_COOLDOWN :: int where "SHOOT_COOLDOWN = 200"

subsection \<open>Values of a message and their coercions\<close>

text \<open>
  A field of a message is any JSON value, or absent (\<open>JUndefined\<close>). \<open>JObj\<close>
  stands for every object and array: the code only tests them for truthiness.
\<close>

datatype jsval = JUndefined | JNull | JBool bool | JNum real | JStr string | JObj

text \<open>\<open>!!v\<close>, and the test of \<open>if (v)\<close>.\<close>

fun truthy :: "jsval \<Rightarrow> bool" where
  "truthy JUndefined = False"
| "truthy JNull = False"
| "truthy (JBool b) = b"
| "truthy (JNum r) = (r \<noteq> 0)"
| "truthy (JStr s) = (s \<noteq> [])"
| "truthy JObj = True"

text \<open>\<open>typeof v === 'number'\<close>.\<close>

fun is_number :: "jsval \<Rightarrow> bool" where
  "is_number (JNum r) = True"
| "is_number v = False"

fun num_of :: "jsval \<Rightarrow> real" where
  "num_of (JNum r) = r"
| "num_of v = 0"

record message =
  m_up :: jsval
  m_down :: jsval
  m_left :: jsval
  m_right :: jsval
  m_mouseAngle :: jsval
  m_shoot :: jsval

subsection \<open>The world\<close>

record staged =
  up :: bool
  down :: bool
  left :: bool
  right :: bool
  mouseAngle :: real
  shoot :: bool

record player =
  p_id :: string
  p_x :: real
  p_y :: real
  p_vx :: real
  p_vy :: real
  angle :: real
  input :: staged
  health :: int
  alive :: bool
  lastShot :: int
  respawnAt :: int

record bullet =
  b_id :: nat
  b_x :: real
  b_y :: real
  b_vx :: real
  b_vy :: real
  ownerId :: string
  born :: int

text \<open>
  A dictionary is an association list in the order in which \<open>for ... in\<close> visits
  its keys: insertion order for the players (socket ids are not array indices), and
  for the bullets ascending numeric order, which is insertion order too since the ids
  come from a counter. An assignment to a present key keeps its place
  (\<^const>\<open>AList.update\<close>), \<open>delete\<close> is \<^const>\<open>AList.delete\<close>.
  The bullet's key \<open>String(nextBulletId++)\<close> is modelled by the number itself, a
  \<open>nat\<close>: the counter is exact in a double up to \<open>2^53\<close>.
\<close>

record world =
  players :: "(string \<times> player) list"
  bullets :: "(nat \<times> bullet) list"
  nextBulletId :: nat
  lastTick :: int

definition init_world :: "int \<Rightarrow> world" where
  "init_world t0 = \<lparr>players = [], bullets = [], nextBulletId = 1, lastTick = t0\<rparr>"

subsection \<open>Connection and disconnect\<close>

text \<open>\<open>Math.random() * (extent - 200) + 100\<close>, with the random number \<open>r\<close>.\<close>

definition spawn_coord :: "real \<Rightarrow> real \<Rightarrow> real" where
  "spawn_coord extent r = r * (extent - 200) + 100"

definition new_player :: "string \<Rightarrow> real \<Rightarrow> real \<Rightarrow> player" where
  "new_player sid rx ry =
     \<lparr>p_id = sid,
      p_x = spawn_coord WORLD_WIDTH rx,
      p_y = spawn_coord WORLD_HEIGHT ry,
      p_vx = 0, p_vy = 0, angle = 0,
      input = \<lparr>up = False, down = False, left = False, right = False,
               mouseAngle = 0, shoot = False\<rparr>,
      health = PLAYER_MAX_HEALTH, alive = True, lastShot = 0, respawnAt = 0\<rparr>"

definition connection :: "string \<Rightarrow> real \<Rightarrow> real \<Rightarrow> world \<Rightarrow> world" where
  "connection sid rx ry w =
     w\<lparr>players := AList.update sid (new_player sid rx ry) (players w)\<rparr>"

definition disconnect :: "string \<Rightarrow> world \<Rightarrow> world" where
  "disconnect sid w = w\<lparr>players := AList.delete sid (players w)\<rparr>"

subsection \<open>The input handler\<close>

definition stage :: "message \<Rightarrow> staged \<Rightarrow> staged" where
  "stage m i =
     i\<lparr>up := truthy (m_up m),
       down := truthy (m_down m),
       left := truthy (m_left m),
       right := truthy (m_right m),
       mouseAngle := (if is_number (m_mouseAngle m) then num_of (m_mouseAngle m)
                      else mouseAngle i)\<rparr>"

definition new_bullet :: "string \<Rightarrow> nat \<Rightarrow> int \<Rightarrow> player \<Rightarrow> bullet" where
  "new_bullet sid n now p =
     (let a = mouseAngle (input p) in
      \<lparr>b_id = n,
       b_x = p_x p + cos a * (PLAYER_RADIUS + BULLET_RADIUS + 2),
       b_y = p_y p + sin a * (PLAYER_RADIUS + BULLET_RADIUS + 2),
       b_vx = cos a * BULLET_SPEED,
       b_vy = sin a * BULLET_SPEED,
       ownerId = sid, born = now\<rparr>)"

definition on_input :: "string \<Rightarrow> message \<Rightarrow> int \<Rightarrow> world \<Rightarrow> world" where
  "on_input sid m now w =
     (case map_of (players w) sid of
        None \<Rightarrow> w
      | Some p0 \<Rightarrow>
          (let p = p0\<lparr>input := stage m (input p0)\<rparr> in
           if truthy (m_shoot m) \<and> now - lastShot p \<ge> SHOOT_COOLDOWN \<and> alive p
           then w\<lparr>players := AList.update sid (p\<lparr>lastShot := now\<rparr>) (players w),
                  bullets := AList.update (nextBulletId w)
                               (new_bullet sid (nextBulletId w) now p) (bullets w),
                  nextBulletId := Suc (nextBulletId w)\<rparr>
           else w\<lparr>players := AList.update sid p (players w)\<rparr>))"

text \<open>
  The handler reads the fields of whatever the client sent. Every value but \<open>null\<close>
  and \<open>undefined\<close> has fields to read (absent ones are \<open>undefined\<close>), and
  \<^const>\<open>on_input\<close> is the handler on such a payload. On \<open>null\<close> or \<open>undefined\<close>
  the first read, \<open>input.up\<close>, throws a TypeError, after the test for the player and
  before anything is written.
\<close>

datatype error = TypeError

datatype payload = Nullish | Fields message

definition input_event :: "string \<Rightarrow> payload \<Rightarrow> int \<Rightarrow> world \<Rightarrow> error + world" where
  "input_event sid pl now w =
     (case map_of (players w) sid of
        None \<Rightarrow> Inr w
      | Some p \<Rightarrow> (case pl of Nullish \<Rightarrow> Inl TypeError
                              | Fields m \<Rightarrow> Inr (on_input sid m now w)))"

subsection \<open>The tick: players\<close>

text \<open>
  \<open>Math.random()\<close> is the stream \<open>rnd\<close> read at a counter, which the loop over the
  players threads through: a respawn draws two numbers.
\<close>

definition respawn :: "(nat \<Rightarrow> real) \<Rightarrow> nat \<Rightarrow> player \<Rightarrow> player" where
  "respawn rnd k p =
     p\<lparr>alive := True, health := PLAYER_MAX_HEALTH,
       p_x := spawn_coord WORLD_WIDTH (rnd k),
       p_y := spawn_coord WORLD_HEIGHT (rnd (Suc k)),
       respawnAt := 0\<rparr>"

text \<open>
  The direction from the four staged keys, each axis starting at 0:
  \<open>if (left) dx -= 1; if (right) dx += 1\<close>, and \<open>up\<close>, \<open>down\<close> likewise for \<open>dy\<close>.
\<close>

definition dir_x :: "staged \<Rightarrow> real" where
  "dir_x i = (let dx = 0; dx = (if left i then dx - 1 else dx) in
              if right i then dx + 1 else dx)"

definition dir_y :: "staged \<Rightarrow> real" where
  "dir_y i = (let dy = 0; dy = (if up i then dy - 1 else dy) in
              if down i then dy + 1 else dy)"

text \<open>
  Rounding to the nearest double, ties to even (binary64 has 53 significant bits), for
  the normal range of exponents: \<open>e\<close> is the exponent of \<open>x\<close> and \<open>u\<close> the distance of
  neighbouring doubles at that exponent. Overflow and subnormal numbers are not
  modelled; the velocity computation, the only user, stays far from both.
\<close>

definition round_even :: "real \<Rightarrow> int" where
  "round_even y =
     (let f = \<lfloor>y\<rfloor>; d = y - of_int f in
      if d < 1/2 then f else if 1/2 < d then f + 1 else if even f then f else f + 1)"

definition round64 :: "real \<Rightarrow> real" where
  "round64 x =
     (if x = 0 then 0
      else let e = \<lfloor>log 2 \<bar>x\<bar>\<rfloor>; u = 2 powr (of_int e - 52)
           in sgn x * (of_int (round_even (\<bar>x\<bar> / u)) * u))"

text \<open>
  \<open>Math.hypot(dx, dy) || 1\<close>: the hypotenuse, or 1 when it is 0. The squares of the
  direction sum exactly (to 0, 1 or 2), and the square root is rounded.
\<close>

definition norm_len :: "real \<Rightarrow> real \<Rightarrow> real" where
  "norm_len dx dy =
     (let h = round64 (sqrt (dx * dx + dy * dy)) in if h \<noteq> 0 then h else 1)"

definition clamp_coord :: "real \<Rightarrow> real \<Rightarrow> real" where
  "clamp_coord extent v = max PLAYER_RADIUS (min (extent - PLAYER_RADIUS) v)"

definition move_player :: "real \<Rightarrow> player \<Rightarrow> player" where
  "move_player dt p =
     (let dx = dir_x (input p); dy = dir_y (input p);
          len = norm_len dx dy;
          vx = round64 (round64 (dx / len) * PLAYER_SPEED);
          vy = round64 (round64 (dy / len) * PLAYER_SPEED)
      in p\<lparr>p_vx := vx, p_vy := vy,
           p_x := clamp_coord WORLD_WIDTH (p_x p + vx * dt),
           p_y := clamp_coord WORLD_HEIGHT (p_y p + vy * dt),
           angle := (if mouseAngle (input p) \<noteq> 0 then mouseAngle (input p)
                     else angle p)\<rparr>)"

text \<open>One pass of the loop body: the player after it, and the counter of the stream.\<close>

definition update_player ::
  "int \<Rightarrow> real \<Rightarrow> (nat \<Rightarrow> real) \<Rightarrow> nat \<Rightarrow> player \<Rightarrow> player \<times> nat" where
  "update_player now dt rnd k p =
     (if \<not> alive p then
        (if respawnAt p \<noteq> 0 \<and> now \<ge> respawnAt p then (respawn rnd k p, k + 2)
         else (p, k))
      else (move_player dt p, k))"

fun update_players ::
  "int \<Rightarrow> real \<Rightarrow> (nat \<Rightarrow> real) \<Rightarrow> nat \<Rightarrow> (string \<times> player) list
     \<Rightarrow> (string \<times> player) list" where
  "update_players now dt rnd k [] = []"
| "update_players now dt rnd k ((sid, p) # ps) =
     (sid, fst (update_player now dt rnd k p))
       # update_players now dt rnd (snd (update_player now dt rnd k p)) ps"

subsection \<open>The tick: bullets and collisions\<close>

definition move_bullet :: "real \<Rightarrow> bullet \<Rightarrow> bullet" where
  "move_bullet dt b = b\<lparr>b_x := b_x b + b_vx b * dt, b_y := b_y b + b_vy b * dt\<rparr>"

definition out_of_bounds :: "bullet \<Rightarrow> bool" where
  "out_of_bounds b \<longleftrightarrow>
     b_x b < - 50 \<or> b_x b > WORLD_WIDTH + 50 \<or> b_y b < - 50 \<or> b_y b > WORLD_HEIGHT + 50"

definition overlaps :: "player \<Rightarrow> bullet \<Rightarrow> bool" where
  "overlaps p b \<longleftrightarrow>
     (let dx = p_x p - b_x b; dy = p_y p - b_y b;
          dist2 = dx * dx + dy * dy;
          minDist = PLAYER_RADIUS + BULLET_RADIUS
      in dist2 \<le> minDist * minDist)"

text \<open>The players the scan does not skip.\<close>

definition eligible :: "bullet \<Rightarrow> string \<Rightarrow> player \<Rightarrow> bool" where
  "eligible b pid p \<longleftrightarrow> \<not> (\<not> alive p \<or> pid = ownerId b)"

definition hit :: "int \<Rightarrow> player \<Rightarrow> player" where
  "hit now p =
     (let p1 = p\<lparr>health := health p - 25\<rparr> in
      if health p1 \<le> 0 then p1\<lparr>alive := False, respawnAt := now + RESPAWN_TIME\<rparr>
      else p1)"

text \<open>
  The scan of the players for one bullet: the players after it, and whether the
  bullet was deleted by a hit. The scan stops (\<open>break\<close>) at the first hit.
\<close>

fun collide ::
  "int \<Rightarrow> bullet \<Rightarrow> (string \<times> player) list \<Rightarrow> (string \<times> player) list \<times> bool" where
  "collide now b [] = ([], False)"
| "collide now b ((pid, p) # ps) =
     (if \<not> alive p \<or> pid = ownerId b then
        ((pid, p) # fst (collide now b ps), snd (collide now b ps))
      else if overlaps p b then ((pid, hit now p) # ps, True)
      else ((pid, p) # fst (collide now b ps), snd (collide now b ps)))"

text \<open>
  The loop body for one bullet: the players after it, and the bullet if it is still
  in the dictionary (\<open>None\<close> after a \<open>delete\<close>).
\<close>

definition bullet_step ::
  "int \<Rightarrow> real \<Rightarrow> (string \<times> player) list \<Rightarrow> bullet
     \<Rightarrow> (string \<times> player) list \<times> bullet option" where
  "bullet_step now dt ps b0 =
     (let b = move_bullet dt b0 in
      if now - born b > BULLET_LIFETIME then (ps, None)
      else if out_of_bounds b then (ps, None)
      else (fst (collide now b ps), if snd (collide now b ps) then None else Some b))"

fun update_bullets ::
  "int \<Rightarrow> real \<Rightarrow> (string \<times> player) list \<Rightarrow> (nat \<times> bullet) list
     \<Rightarrow> (string \<times> player) list \<times> (nat \<times> bullet) list" where
  "update_bullets now dt ps [] = (ps, [])"
| "update_bullets now dt ps ((n, b) # bs) =
     (let r = bullet_step now dt ps b;
          rest = update_bullets now dt (fst r) bs
      in (fst rest, (case snd r of None \<Rightarrow> snd rest | Some b1 \<Rightarrow> (n, b1) # snd rest)))"

text \<open>\<open>Math.min(100, now - lastTick) / 1000\<close>: the step in seconds.\<close>

definition tick_dt :: "int \<Rightarrow> world \<Rightarrow> real" where
  "tick_dt now w = real_of_int (min 100 (now - lastTick w)) / 1000"

definition tick :: "int \<Rightarrow> (nat \<Rightarrow> real) \<Rightarrow> world \<Rightarrow> world" where
  "tick now rnd w =
     (let dt = tick_dt now w;
          ps = update_players now dt rnd 0 (players w);
          r = update_bullets now dt ps (bullets w)
      in w\<lparr>players := fst r, bullets := snd r, lastTick := now\<rparr>)"

subsection \<open>Reachable worlds\<close>

text \<open>
  The worlds the server can be in: it starts empty and runs callbacks, in any order,
  at any clock reading; \<open>Math.random()\<close> returns a number in \<open>[0, 1)\<close>.
\<close>

inductive reachable :: "world \<Rightarrow> bool" where
  r_init: "reachable (init_world t0)"
| r_connection:
    "reachable w \<Longrightarrow> 0 \<le> rx \<Longrightarrow> rx < 1 \<Longrightarrow> 0 \<le> ry \<Longrightarrow> ry < 1
       \<Longrightarrow> reachable (connection sid rx ry w)"
| r_input: "reachable w \<Longrightarrow> reachable (on_input sid m now w)"
| r_disconnect: "reachable w \<Longrightarrow> reachable (disconnect sid w)"
| r_tick:
    "reachable w \<Longrightarrow> (\<forall>n. 0 \<le> rnd n \<and> rnd n < 1) \<Longrightarrow> reachable (tick now rnd w)"

text \<open>
  \<open>later w w'\<close>: the world \<open>w'\<close> comes from \<open>w\<close> by running callbacks.
\<close>

inductive later :: "world \<Rightarrow> world \<Rightarrow> bool" where
  l_now: "later w w"
| l_connection: "later w w' \<Longrightarrow> later w (connection sid rx ry w')"
| l_input: "later w w' \<Longrightarrow> later w (on_input sid m now w')"
| l_disconnect: "later w w' \<Longrightarrow> later w (disconnect sid w')"
| l_tick: "later w w' \<Longrightarrow> later w (tick now rnd w')"

subsection \<open>Invariants of the reachable worlds\<close>

definition in_bounds :: "player \<Rightarrow> bool" where
  "in_bounds p \<longleftrightarrow>
     PLAYER_RADIUS \<le> p_x p \<and> p_x p \<le> WORLD_WIDTH - PLAYER_RADIUS \<and>
     PLAYER_RADIUS \<le> p_y p \<and> p_y p \<le> WORLD_HEIGHT - PLAYER_RADIUS"

definition health_ok :: "player \<Rightarrow> bool" where
  "health_ok p \<longleftrightarrow>
     (if alive p then 0 \<le> health p \<and> health p \<le> PLAYER_MAX_HEALTH else health p \<le> 0)"

definition player_ok :: "player \<Rightarrow> bool" where
  "player_ok p \<longleftrightarrow> health_ok p \<and> (alive p \<longrightarrow> in_bounds p)"

definition world_ok :: "world \<Rightarrow> bool" where
  "world_ok w \<longleftrightarrow>
     distinct (map fst (players w)) \<and>
     (\<forall>e \<in> set (players w). player_ok (snd e)) \<and>
     distinct (map fst (bullets w)) \<and>
     (\<forall>n \<in> fst ` set (bullets w). n < nextBulletId w)"

text \<open>
  The three conditions that end a bullet, for the bullet as moved by the tick at time
  \<open>now\<close> and the players as the scan finds them.
\<close>

definition terminal :: "int \<Rightarrow> bullet \<Rightarrow> (string \<times> player) list \<Rightarrow> bool" where
  "terminal now b ps \<longleftrightarrow>
     now - born b > BULLET_LIFETIME \<or> out_of_bounds b \<or>
     (\<exists>e \<in> set ps. eligible b (fst e) (snd e) \<and> overlaps (snd e) b)"

text \<open>
  The players as they are when the bullet loop of the tick reaches the bullet at
  position \<open>i\<close>: updated by the player loop, and hit by the bullets before it.
\<close>

definition players_at :: "int \<Rightarrow> (nat \<Rightarrow> real) \<Rightarrow> world \<Rightarrow> nat \<Rightarrow> (string \<times> player) list" where
  "players_at now rnd w i =
     fst (update_bullets now (tick_dt now w)
            (update_players now (tick_dt now w) rnd 0 (players w)) (take i (bullets w)))"

text \<open>
  What a hit does not write: the player with its three combat fields blanked. Two
  players with the same image differ at most in health, alive and respawnAt.
\<close>

definition no_combat :: "player \<Rightarrow> player" where
  "no_combat p = p\<lparr>health := 0, alive := True, respawnAt := 0\<rparr>"

text \<open>A world with one player, used to instantiate the theorems below.\<close>

definition world1 :: world where
  "world1 = connection ''a'' (1/2) (1/2) (init_world 0)"

text \<open>
  A duel, used to instantiate the theorems below: player \<open>a\<close> at (600, 400) and player
  \<open>b\<close> at (700, 400); \<open>a\<close> fires along angle 0 and the next tick moves the bullet
  into \<open>b\<close>. After four rounds \<open>b\<close> is dead.
\<close>

definition idle_input :: staged where
  "idle_input = \<lparr>up = False, down = False, left = False, right = False,
                  mouseAngle = 0, shoot = False\<rparr>"

definition msg_none :: message where
  "msg_none = \<lparr>m_up = JUndefined, m_down = JUndefined, m_left = JUndefined,
                m_right = JUndefined, m_mouseAngle = JUndefined, m_shoot = JUndefined\<rparr>"

definition msg_fire :: message where
  "msg_fire = msg_none\<lparr>m_mouseAngle := JNum 0, m_shoot := JBool True\<rparr>"

definition player_a :: "int \<Rightarrow> player" where
  "player_a ls =
     \<lparr>p_id = ''a'', p_x = 600, p_y = 400, p_vx = 0, p_vy = 0, angle = 0,
      input = idle_input, health = 100, alive = True, lastShot = ls, respawnAt = 0\<rparr>"

definition player_b :: "int \<Rightarrow> bool \<Rightarrow> int \<Rightarrow> player" where
  "player_b h al ra =
     \<lparr>p_id = ''b'', p_x = 700, p_y = 400, p_vx = 0, p_vy = 0, angle = 0,
      input = idle_input, health = h, alive = al, lastShot = 0, respawnAt = ra\<rparr>"

definition duel_bullet :: "nat \<Rightarrow> int \<Rightarrow> bullet" where
  "duel_bullet n t =
     \<lparr>b_id = n, b_x = 622, b_y = 400, b_vx = 600, b_vy = 0, ownerId = ''a'', born = t\<rparr>"

definition duel_world :: "int \<Rightarrow> int \<Rightarrow> bool \<Rightarrow> int \<Rightarrow> nat \<Rightarrow> int \<Rightarrow> world" where
  "duel_world ls h al ra n lt =
     \<lparr>players = [(''a'', player_a ls), (''b'', player_b h al ra)],
      bullets = [], nextBulletId = n, lastTick = lt\<rparr>"

definition wounded_world :: world where
  "wounded_world = duel_world 3000 25 True 0 4 3100"

definition dead_world :: world where
  "dead_world = duel_world 4000 0 False 6100 5 4100"

text \<open>Further messages and worlds used to instantiate the theorems below.\<close>

definition msg_up_right :: message where
  "msg_up_right = msg_none\<lparr>m_up := JBool True, m_right := JBool True\<rparr>"

definition diag_player :: player where
  "diag_player = (new_player ''a'' (1/2) (1/2))\<lparr>input := idle_input\<lparr>up := True, right := True\<rparr>\<rparr>"

definition diag_world :: world where
  "diag_world = on_input ''a'' msg_up_right 50 world1"

definition msg_aim :: "real \<Rightarrow> message" where
  "msg_aim r = msg_none\<lparr>m_mouseAngle := JNum r\<rparr>"

definition aim_world :: world where
  "aim_world = on_input ''a'' (msg_aim 0) 150
                 (tick 100 (\<lambda>n. 0) (on_input ''a'' (msg_aim 1) 50 world1))"

definition up_world :: world where
  "up_world = on_input ''a'' (msg_none\<lparr>m_up := JBool True\<rparr>) 50 world1"

definition fired_world :: world where
  "fired_world = on_input ''a'' msg_fire 1000 (duel_world 0 100 True 0 1 100)"

definition solo_fired :: world where
  "solo_fired = on_input ''a'' msg_fire 1000 world1"

text \<open>The double 155.56349186104043, the speed along each axis on a diagonal.\<close>

definition diag_component :: real where
  "diag_component = 5473403781076835 / 2 ^ 45"

section \<open>Properties\<close>

lemmas game_consts =
  WORLD_WIDTH_def WORLD_HEIGHT_def PLAYER_RADIUS_def PLAYER_SPEED_def
  PLAYER_MAX_HEALTH_def RESPAWN_TIME_def BULLET_SPEED_def BULLET_RADIUS_def
  BULLET_LIFETIME_def SHOOT_COOLDOWN_def

lemma round64_zero [simp]: "round64 0 = 0"
  by (simp add: round64_def)

lemma reachable_world1: "reachable world1"
  unfolding world1_def by (rule r_connection[OF r_init]) simp_all

subsection \<open>The invariants hold in every reachable world\<close>

lemma update_players_keys: "map fst (update_players now dt rnd k ps) = map fst ps"
  by (induction ps arbitrary: k) auto

lemma in_bounds_move_player: "in_bounds (move_player dt p)"
  by (simp add: in_bounds_def move_player_def clamp_coord_def Let_def game_consts)

lemma in_bounds_spawn:
  assumes "0 \<le> rx" "rx < 1" "0 \<le> ry" "ry < 1"
  shows "PLAYER_RADIUS \<le> spawn_coord WORLD_WIDTH rx \<and>
         spawn_coord WORLD_WIDTH rx \<le> WORLD_WIDTH - PLAYER_RADIUS \<and>
         PLAYER_RADIUS \<le> spawn_coord WORLD_HEIGHT ry \<and>
         spawn_coord WORLD_HEIGHT ry \<le> WORLD_HEIGHT - PLAYER_RADIUS"
  using assms by (simp add: spawn_coord_def game_consts)

lemma player_ok_new_player:
  assumes "0 \<le> rx" "rx < 1" "0 \<le> ry" "ry < 1"
  shows "player_ok (new_player sid rx ry)"
  using in_bounds_spawn[OF assms]
  by (simp add: player_ok_def health_ok_def in_bounds_def new_player_def PLAYER_MAX_HEALTH_def)

lemma player_ok_respawn:
  assumes "\<forall>n. 0 \<le> rnd n \<and> rnd n < 1"
  shows "player_ok (respawn rnd k p)"
proof -
  have "0 \<le> rnd k" "rnd k < 1" "0 \<le> rnd (Suc k)" "rnd (Suc k) < 1" using assms by auto
  from in_bounds_spawn[OF this] show ?thesis
    by (simp add: player_ok_def health_ok_def in_bounds_def respawn_def PLAYER_MAX_HEALTH_def)
qed

lemma move_player_frame:
  "health (move_player dt p) = health p" "alive (move_player dt p) = alive p"
  by (simp_all add: move_player_def Let_def)

lemma player_ok_update_player:
  assumes "\<forall>n. 0 \<le> rnd n \<and> rnd n < 1" "player_ok p"
  shows "player_ok (fst (update_player now dt rnd k p))"
  using assms player_ok_respawn[OF assms(1)] in_bounds_move_player[of dt p]
  by (simp add: update_player_def player_ok_def health_ok_def move_player_frame)

lemma players_ok_update_players:
  assumes "\<forall>n. 0 \<le> rnd n \<and> rnd n < 1"
  shows "list_all (\<lambda>e. player_ok (snd e)) ps \<Longrightarrow>
         list_all (\<lambda>e. player_ok (snd e)) (update_players now dt rnd k ps)"
  by (induction ps arbitrary: k) (auto simp: player_ok_update_player[OF assms])

lemma player_ok_hit: "player_ok p \<Longrightarrow> alive p \<Longrightarrow> player_ok (hit now p)"
  by (auto simp: player_ok_def health_ok_def hit_def Let_def in_bounds_def)

lemma collide_keys: "map fst (fst (collide now b ps)) = map fst ps"
  by (induction ps) auto

lemma players_ok_collide:
  "list_all (\<lambda>e. player_ok (snd e)) ps \<Longrightarrow>
   list_all (\<lambda>e. player_ok (snd e)) (fst (collide now b ps))"
  by (induction ps) (auto simp: player_ok_hit)

lemma bullet_step_keys: "map fst (fst (bullet_step now dt ps b)) = map fst ps"
  by (simp add: bullet_step_def Let_def collide_keys)

lemma players_ok_bullet_step:
  "list_all (\<lambda>e. player_ok (snd e)) ps \<Longrightarrow>
   list_all (\<lambda>e. player_ok (snd e)) (fst (bullet_step now dt ps b))"
  using players_ok_collide[of ps now "move_bullet dt b"]
  by (simp add: bullet_step_def Let_def)

lemma update_bullets_keys: "map fst (fst (update_bullets now dt ps bs)) = map fst ps"
  by (induction bs arbitrary: ps) (auto simp: Let_def bullet_step_keys)

lemma players_ok_update_bullets:
  "list_all (\<lambda>e. player_ok (snd e)) ps \<Longrightarrow>
   list_all (\<lambda>e. player_ok (snd e)) (fst (update_bullets now dt ps bs))"
proof (induction bs arbitrary: ps)
  case Nil
  then show ?case by simp
next
  case (Cons nb bs)
  obtain n b where nb: "nb = (n, b)" by (cases nb)
  have "list_all (\<lambda>e. player_ok (snd e)) (fst (bullet_step now dt ps b))"
    using Cons.prems by (rule players_ok_bullet_step)
  from Cons.IH[OF this] show ?case by (simp add: nb Let_def)
qed

lemma update_bullets_ids:
  "fst ` set (snd (update_bullets now dt ps bs)) \<subseteq> fst ` set bs"
proof (induction bs arbitrary: ps)
  case Nil
  then show ?case by simp
next
  case (Cons nb bs)
  obtain n b where nb: "nb = (n, b)" by (cases nb)
  from Cons[of "fst (bullet_step now dt ps b)"] show ?case
    by (cases "snd (bullet_step now dt ps b)") (auto simp: nb Let_def)
qed

lemma update_bullets_distinct:
  "distinct (map fst bs) \<Longrightarrow> distinct (map fst (snd (update_bullets now dt ps bs)))"
proof (induction bs arbitrary: ps)
  case Nil
  then show ?case by simp
next
  case (Cons nb bs)
  obtain n b where nb: "nb = (n, b)" by (cases nb)
  let ?r = "bullet_step now dt ps b"
  have d: "distinct (map fst (snd (update_bullets now dt (fst ?r) bs)))"
    using Cons by simp
  have "n \<notin> fst ` set (snd (update_bullets now dt (fst ?r) bs))"
    using update_bullets_ids[of now dt "fst ?r" bs] Cons.prems by (auto simp: nb)
  with d show ?case by (simp add: nb Let_def split: option.splits)
qed

lemma world_ok_init: "world_ok (init_world t0)"
  by (simp add: world_ok_def init_world_def)

lemma set_update_cases:
  "e \<in> set (AList.update k v al) \<Longrightarrow> e = (k, v) \<or> e \<in> set al"
  by (induction al) (auto split: if_splits)

lemma players_ok_update:
  assumes "\<forall>e \<in> set al. player_ok (snd e)" "player_ok v"
  shows "\<forall>e \<in> set (AList.update k v al). player_ok (snd e)"
  using assms set_update_cases[of _ k v al] by fastforce

lemma world_ok_connection:
  assumes "world_ok w" "0 \<le> rx" "rx < 1" "0 \<le> ry" "ry < 1"
  shows "world_ok (connection sid rx ry w)"
proof -
  have "\<forall>e \<in> set (AList.update sid (new_player sid rx ry) (players w)). player_ok (snd e)"
    using assms(1) player_ok_new_player[OF assms(2-5), of sid]
    by (intro players_ok_update) (simp_all add: world_ok_def)
  then show ?thesis using assms(1)
    by (simp add: world_ok_def connection_def distinct_update)
qed

lemma world_ok_disconnect:
  assumes "world_ok w" shows "world_ok (disconnect sid w)"
proof -
  have "distinct (map fst (AList.delete sid (players w)))"
    using assms by (intro distinct_delete) (simp add: world_ok_def)
  moreover have "\<forall>e \<in> set (AList.delete sid (players w)). player_ok (snd e)"
    using assms by (simp add: world_ok_def AList.delete_eq)
  ultimately show ?thesis using assms by (simp add: world_ok_def disconnect_def)
qed

lemma player_ok_input:
  "player_ok (p\<lparr>input := i\<rparr>) = player_ok p"
  "player_ok (p\<lparr>lastShot := t\<rparr>) = player_ok p"
  by (simp_all add: player_ok_def health_ok_def in_bounds_def)

lemma world_ok_on_input: 
  assumes "world_ok w" shows "world_ok (on_input sid m now w)"
proof (cases "map_of (players w) sid")
  case None
  then show ?thesis using assms by (simp add: on_input_def)
next
  case (Some p0)
  then have "(sid, p0) \<in> set (players w)" by (rule map_of_SomeD)
  then have ok: "player_ok p0" using assms by (auto simp: world_ok_def)
  have pl: "\<forall>e \<in> set (players w). player_ok (snd e)" using assms by (simp add: world_ok_def)
  have 1: "\<forall>e \<in> set (AList.update sid (p0\<lparr>input := i\<rparr>) (players w)). player_ok (snd e)" for i
    using pl ok by (intro players_ok_update) (simp_all add: player_ok_input)
  have 2: "\<forall>e \<in> set (AList.update sid (p0\<lparr>input := i, lastShot := t\<rparr>) (players w)). player_ok (snd e)" for i t
    using pl ok by (intro players_ok_update) (simp_all add: player_ok_input)
  have 3: "\<forall>n \<in> fst ` set (AList.update (nextBulletId w) b (bullets w)). n < Suc (nextBulletId w)" for b
    using assms by (auto simp: dom_update world_ok_def)
  show ?thesis using assms Some 1 2 3
    by (simp add: world_ok_def on_input_def Let_def distinct_update)
qed

lemma world_ok_tick:
  assumes "world_ok w" "\<forall>n. 0 \<le> rnd n \<and> rnd n < 1" shows "world_ok (tick now rnd w)"
proof -
  let ?dt = "tick_dt now w"
  let ?ps = "update_players now ?dt rnd 0 (players w)"
  let ?r = "update_bullets now ?dt ?ps (bullets w)"
  have 1: "distinct (map fst (fst ?r))" using assms(1)
    by (simp add: update_bullets_keys update_players_keys world_ok_def)
  have "list_all (\<lambda>e. player_ok (snd e)) ?ps"
    using assms(1) by (intro players_ok_update_players[OF assms(2)]) (simp add: world_ok_def list_all_iff)
  then have "list_all (\<lambda>e. player_ok (snd e)) (fst ?r)" by (rule players_ok_update_bullets)
  then have 2: "\<forall>e \<in> set (fst ?r). player_ok (snd e)" by (simp add: list_all_iff)
  have 3: "distinct (map fst (snd ?r))" using assms(1)
    by (intro update_bullets_distinct) (simp add: world_ok_def)
  have 4: "\<forall>n \<in> fst ` set (snd ?r). n < nextBulletId w"
    using update_bullets_ids[of now ?dt ?ps "bullets w"] assms(1)
    unfolding world_ok_def by blast
  show ?thesis using 1 2 3 4 by (simp add: world_ok_def tick_def Let_def)
qed

lemma reachable_world_ok: "reachable w \<Longrightarrow> world_ok w"
  by (induction rule: reachable.induct)
     (simp_all add: world_ok_init world_ok_connection world_ok_on_input world_ok_disconnect world_ok_tick)

subsection \<open>The duel is reachable\<close>

lemmas duel_defs =
  duel_world_def player_a_def player_b_def duel_bullet_def idle_input_def msg_fire_def
  msg_none_def

lemma duel_start:
  "tick 100 (\<lambda>n. 0)
     (connection ''b'' (3/5) (1/2) (connection ''a'' (1/2) (1/2) (init_world 0)))
   = duel_world 0 100 True 0 1 100"
  by (simp add: tick_def tick_dt_def connection_def init_world_def new_player_def duel_defs
      spawn_coord_def update_player_def move_player_def dir_x_def dir_y_def
      norm_len_def clamp_coord_def game_consts Let_def)

lemma duel_fire:
  assumes "200 \<le> t - ls"
  shows "on_input ''a'' msg_fire t (duel_world ls h True 0 n lt) =
         (duel_world t h True 0 (Suc n) lt)\<lparr>bullets := [(n, duel_bullet n t)]\<rparr>"
  using assms
  by (simp add: on_input_def duel_defs stage_def new_bullet_def game_consts Let_def)

lemma duel_hit:
  assumes "100 \<le> t - lt" "t - born0 \<le> 2000"
  shows "tick t (\<lambda>n. 0) ((duel_world ls h True 0 n lt)\<lparr>bullets := [(k, duel_bullet k born0)]\<rparr>) =
         duel_world ls (h - 25) (\<not> h - 25 \<le> 0) (if h - 25 \<le> 0 then t + 2000 else 0) n t"
  using assms
  by (simp add: tick_def tick_dt_def duel_defs update_player_def move_player_def
      dir_x_def dir_y_def norm_len_def clamp_coord_def bullet_step_def move_bullet_def
      out_of_bounds_def overlaps_def hit_def game_consts Let_def)

lemma duel_step:
  assumes "reachable (duel_world ls h True 0 n lt)" "200 \<le> t - ls" "lt \<le> t"
  shows "reachable (duel_world t (h - 25) (\<not> h - 25 \<le> 0)
                      (if h - 25 \<le> 0 then t + 100 + 2000 else 0) (Suc n) (t + 100))"
proof -
  have "reachable (tick (t + 100) (\<lambda>n. 0)
                     (on_input ''a'' msg_fire t (duel_world ls h True 0 n lt)))"
    by (rule r_tick, rule r_input, rule assms(1)) simp
  then show ?thesis using assms(2,3) by (simp add: duel_fire duel_hit)
qed

lemma reachable_duel0: "reachable (duel_world 0 100 True 0 1 100)"
  unfolding duel_start[symmetric]
  by (rule r_tick, rule r_connection, rule r_connection, rule r_init) simp_all

lemma reachable_wounded: "reachable wounded_world"
proof -
  have "reachable (duel_world 1000 75 True 0 2 1100)"
    using duel_step[OF reachable_duel0, of 1000] by (simp add: numeral_2_eq_2)
  then have "reachable (duel_world 2000 50 True 0 3 2100)"
    using duel_step[of 1000 75 2 1100 2000] by (simp add: numeral_3_eq_3)
  then show ?thesis
    using duel_step[of 2000 50 3 2100 3000] by (simp add: eval_nat_numeral wounded_world_def)
qed

lemma reachable_dead: "reachable dead_world"
  using duel_step[OF reachable_wounded[unfolded wounded_world_def], of 4000]
  by (simp add: eval_nat_numeral dead_world_def)

subsection \<open>Health and position of the players\<close>

text \<open>
  Claim C5. In every reachable world, a player that is alive has a health between 0 and
  the maximum, and a player that is not alive has a health of at most 0; the loop body
  of the tick leaves a dead player as it is or respawns it, alive with the maximal
  health.
\<close>

theorem health_range:
  "reachable w \<Longrightarrow> (sid, p) \<in> set (players w) \<Longrightarrow>
   (alive p \<longrightarrow> 0 \<le> health p \<and> health p \<le> PLAYER_MAX_HEALTH) \<and>
   (\<not> alive p \<longrightarrow>
      health p \<le> 0 \<and>
      (fst (update_player now dt rnd k p) = p \<or>
       alive (fst (update_player now dt rnd k p)) \<and>
       health (fst (update_player now dt rnd k p)) = PLAYER_MAX_HEALTH))"
  using reachable_world_ok[of w]
  by (force simp: world_ok_def player_ok_def health_ok_def update_player_def respawn_def)

theorem health_range_witness:
  "reachable wounded_world \<and> (''b'', player_b 25 True 0) \<in> set (players wounded_world) \<and>
   alive (player_b 25 True 0) \<and> health (player_b 25 True 0) = 25 \<and>
   reachable dead_world \<and> (''b'', player_b 0 False 6100) \<in> set (players dead_world) \<and>
   \<not> alive (player_b 0 False 6100) \<and> health (player_b 0 False 6100) = 0 \<and>
   fst (update_player 6099 (1/10) (\<lambda>n. 0) 0 (player_b 0 False 6100)) = player_b 0 False 6100 \<and>
   alive (fst (update_player 6100 (1/10) (\<lambda>n. 0) 0 (player_b 0 False 6100))) \<and>
   health (fst (update_player 6100 (1/10) (\<lambda>n. 0) 0 (player_b 0 False 6100))) = 100"
  using reachable_wounded reachable_dead
    health_range[of wounded_world "''b''" "player_b 25 True 0" 0 0 "\<lambda>n. 0" 0]
    health_range[of dead_world "''b''" "player_b 0 False 6100" 6100 "1/10" "\<lambda>n. 0" 0]
  by (simp add: wounded_world_def dead_world_def duel_world_def player_b_def
        update_player_def respawn_def PLAYER_MAX_HEALTH_def)

text \<open>
  Claim C6. In every reachable world, every player that is alive has its position
  within one player radius of the world's borders: x in [radius, width - radius] and
  y in [radius, height - radius]. The spawn, the clamp that ends every movement and
  the respawn establish it; nothing else writes the position.
\<close>

theorem alive_player_in_bounds:
  "reachable w \<Longrightarrow> (sid, p) \<in> set (players w) \<Longrightarrow> alive p \<Longrightarrow>
   PLAYER_RADIUS \<le> p_x p \<and> p_x p \<le> WORLD_WIDTH - PLAYER_RADIUS \<and>
   PLAYER_RADIUS \<le> p_y p \<and> p_y p \<le> WORLD_HEIGHT - PLAYER_RADIUS"
  using reachable_world_ok[of w] by (force simp: world_ok_def player_ok_def in_bounds_def)

theorem alive_player_in_bounds_witness:
  "reachable wounded_world \<and> (''b'', player_b 25 True 0) \<in> set (players wounded_world) \<and>
   alive (player_b 25 True 0) \<and>
   p_x (player_b 25 True 0) = 700 \<and> p_y (player_b 25 True 0) = 400 \<and>
   PLAYER_RADIUS \<le> 700 \<and> 700 \<le> WORLD_WIDTH - PLAYER_RADIUS \<and>
   PLAYER_RADIUS \<le> 400 \<and> 400 \<le> WORLD_HEIGHT - PLAYER_RADIUS"
  using reachable_wounded
    alive_player_in_bounds[of wounded_world "''b''" "player_b 25 True 0"]
  by (simp add: wounded_world_def duel_world_def player_b_def)

subsection \<open>Disconnect\<close>

text \<open>
  Claim C9. Disconnect is idempotent: a disconnect removes the entry of its session
  identifier when there is one and leaves every other entry as it was; for an identifier
  with no entry (already removed, or never there) it leaves the world unchanged, so
  a second disconnect changes nothing. \<open>delete\<close> of a missing key is no error in
  JavaScript, and the model is a total function accordingly.
\<close>

theorem disconnect_idempotent:
  "sid \<notin> fst ` set (players (disconnect sid w)) \<and>
   (\<forall>k. k \<noteq> sid \<longrightarrow> map_of (players (disconnect sid w)) k = map_of (players w) k) \<and>
   (sid \<notin> fst ` set (players w) \<longrightarrow> disconnect sid w = w) \<and>
   disconnect sid (disconnect sid w) = disconnect sid w"
  by (simp add: disconnect_def delete_notin_dom delete_idem)

theorem disconnect_idempotent_witness:
  "''a'' \<in> fst ` set (players world1) \<and>
   ''a'' \<notin> fst ` set (players (disconnect ''a'' world1)) \<and>
   ''b'' \<notin> fst ` set (players world1) \<and> disconnect ''b'' world1 = world1 \<and>
   disconnect ''a'' (disconnect ''a'' world1) = disconnect ''a'' world1"
  using disconnect_idempotent[of "''a''" world1] disconnect_idempotent[of "''b''" world1]
  by (simp add: world1_def connection_def init_world_def)

subsection \<open>What a tick does to a player that is alive\<close>

lemma no_combat_hit: "no_combat (hit now p) = no_combat p"
  by (simp add: no_combat_def hit_def Let_def)

lemma collide_frame:
  "map (\<lambda>e. (fst e, no_combat (snd e))) (fst (collide now b ps)) =
   map (\<lambda>e. (fst e, no_combat (snd e))) ps"
  by (induction ps) (auto simp: no_combat_hit)

lemma bullet_step_frame:
  "map (\<lambda>e. (fst e, no_combat (snd e))) (fst (bullet_step now dt ps b)) =
   map (\<lambda>e. (fst e, no_combat (snd e))) ps"
  by (simp add: bullet_step_def Let_def collide_frame)

lemma update_bullets_frame:
  "map (\<lambda>e. (fst e, no_combat (snd e))) (fst (update_bullets now dt ps bs)) =
   map (\<lambda>e. (fst e, no_combat (snd e))) ps"
  by (induction bs arbitrary: ps) (auto simp: Let_def bullet_step_frame)

lemma map_of_frame:
  assumes "map (\<lambda>e. (fst e, f (snd e))) xs = map (\<lambda>e. (fst e, f (snd e))) ys"
  shows "map_option f (map_of xs k) = map_option f (map_of ys k)"
proof -
  have "map_of (map (\<lambda>e. (fst e, f (snd e))) zs) k = map_option f (map_of zs k)" for zs
    by (induction zs) auto
  then show ?thesis using assms by metis
qed

lemma update_players_lookup:
  "map_of ps sid = Some p \<Longrightarrow>
   \<exists>k'. map_of (update_players now dt rnd k ps) sid = Some (fst (update_player now dt rnd k' p))"
  by (induction ps arbitrary: k) (auto split: if_splits)

lemma update_players_alive:
  assumes "map_of ps sid = Some p" "alive p"
  shows "map_of (update_players now dt rnd k ps) sid = Some (move_player dt p)"
  using update_players_lookup[OF assms(1), of now dt rnd k] assms(2)
  by (auto simp: update_player_def)

lemma tick_alive_player:
  assumes "map_of (players w) sid = Some p" "alive p"
  shows "\<exists>p'. map_of (players (tick now rnd w)) sid = Some p' \<and>
              no_combat p' = no_combat (move_player (tick_dt now w) p)"
proof -
  let ?ps = "update_players now (tick_dt now w) rnd 0 (players w)"
  have 1: "map_of ?ps sid = Some (move_player (tick_dt now w) p)"
    using assms by (rule update_players_alive)
  have "map_option no_combat (map_of (fst (update_bullets now (tick_dt now w) ?ps (bullets w))) sid)
        = map_option no_combat (map_of ?ps sid)"
    by (rule map_of_frame) (rule update_bullets_frame)
  then show ?thesis using 1 by (auto simp: tick_def Let_def)
qed

lemma no_combat_fields:
  assumes "no_combat p = no_combat q"
  shows "p_x p = p_x q" "p_y p = p_y q" "p_vx p = p_vx q" "p_vy p = p_vy q"
        "angle p = angle q" "input p = input q" "lastShot p = lastShot q" "p_id p = p_id q"
proof -
  have "f (no_combat p) = f (no_combat q)" for f :: "player \<Rightarrow> 'a" using assms by simp
  from this[of p_x] this[of p_y] this[of p_vx] this[of p_vy] this[of angle] this[of input]
       this[of lastShot] this[of p_id]
  show "p_x p = p_x q" "p_y p = p_y q" "p_vx p = p_vx q" "p_vy p = p_vy q"
        "angle p = angle q" "input p = input q" "lastShot p = lastShot q" "p_id p = p_id q"
    by (simp_all add: no_combat_def)
qed

text \<open>
  Claim C10. For a player that is alive in a reachable world and whose four staged
  direction keys are all false, the divisor of the normalisation is 1 (not the zero
  length of the direction), and after the tick the player has velocity (0, 0) and
  the position it had before, the clamp included.
\<close>

theorem idle_player_stays:
  assumes "reachable w" "map_of (players w) sid = Some p" "alive p"
    "\<not> up (input p)" "\<not> down (input p)" "\<not> left (input p)" "\<not> right (input p)"
  shows "norm_len (dir_x (input p)) (dir_y (input p)) = 1 \<and>
         (\<exists>p'. map_of (players (tick now rnd w)) sid = Some p' \<and>
               p_vx p' = 0 \<and> p_vy p' = 0 \<and> p_x p' = p_x p \<and> p_y p' = p_y p)"
proof -
  have "(sid, p) \<in> set (players w)" using assms(2) by (rule map_of_SomeD)
  then have "in_bounds p"
    using reachable_world_ok[OF assms(1)] assms(3) by (force simp: world_ok_def player_ok_def)
  then have mv: "p_x (move_player dt p) = p_x p" "p_y (move_player dt p) = p_y p"
    "p_vx (move_player dt p) = 0" "p_vy (move_player dt p) = 0" for dt
    using assms(4-7)
    by (simp_all add: move_player_def dir_x_def dir_y_def norm_len_def clamp_coord_def
          in_bounds_def Let_def)
  obtain p' where p': "map_of (players (tick now rnd w)) sid = Some p'"
    "no_combat p' = no_combat (move_player (tick_dt now w) p)"
    using tick_alive_player[OF assms(2,3)] by blast
  have "norm_len (dir_x (input p)) (dir_y (input p)) = 1"
    using assms(4-7) by (simp add: dir_x_def dir_y_def norm_len_def)
  then show ?thesis using p'(1) no_combat_fields[OF p'(2)] mv by simp
qed

theorem idle_player_stays_witness:
  "reachable wounded_world \<and> map_of (players wounded_world) ''a'' = Some (player_a 3000) \<and>
   alive (player_a 3000) \<and> \<not> up (input (player_a 3000)) \<and> \<not> down (input (player_a 3000)) \<and>
   \<not> left (input (player_a 3000)) \<and> \<not> right (input (player_a 3000)) \<and>
   norm_len (dir_x (input (player_a 3000))) (dir_y (input (player_a 3000))) = 1 \<and>
   (\<exists>p'. map_of (players (tick 3200 (\<lambda>n. 0) wounded_world)) ''a'' = Some p' \<and>
         p_vx p' = 0 \<and> p_vy p' = 0 \<and> p_x p' = 600 \<and> p_y p' = 400)"
  using reachable_wounded
    idle_player_stays[of wounded_world "''a''" "player_a 3000" 3200 "\<lambda>n. 0"]
  by (simp add: wounded_world_def duel_world_def player_a_def idle_input_def)

subsection \<open>The velocity in binary64\<close>

lemma diag_world_player: "map_of (players diag_world) ''a'' = Some diag_player"
  by (simp add: diag_world_def diag_player_def world1_def connection_def init_world_def
      on_input_def stage_def msg_up_right_def msg_none_def new_player_def idle_input_def Let_def)

lemma round64_minus: "round64 (- x) = - round64 x"
  by (simp add: round64_def Let_def)

lemma round64_eval:
  assumes "0 < x" "2 powr (of_int e) \<le> x" "x < 2 powr (of_int e + 1)"
    "round_even (x / 2 powr (of_int e - 52)) = m"
  shows "round64 x = of_int m * 2 powr (of_int e - 52)"
proof -
  have "of_int e \<le> log 2 x" using assms(1,2) by (simp add: le_log_iff)
  moreover have "log 2 x < of_int e + 1" using assms(1,3) by (simp add: log_less_iff)
  ultimately have "\<lfloor>log 2 x\<rfloor> = e" by (intro floor_unique) auto
  then show ?thesis using assms(1,4) by (simp add: round64_def Let_def)
qed

lemma round_even_down:
  assumes "of_int f \<le> y" "y < of_int f + 1/2" shows "round_even y = f"
proof -
  have "\<lfloor>y\<rfloor> = f" using assms by (intro floor_unique) auto
  then show ?thesis using assms by (simp add: round_even_def Let_def)
qed

lemma round_even_up:
  assumes "of_int f + 1/2 < y" "y < of_int f + 1" shows "round_even y = f + 1"
proof -
  have "\<lfloor>y\<rfloor> = f" using assms by (intro floor_unique) auto
  then show ?thesis using assms by (simp add: round_even_def Let_def)
qed

lemma sqrt2_times: "0 \<le> a \<Longrightarrow> sqrt 2 * a = sqrt (2 * a\<^sup>2)"
  by (simp add: real_sqrt_mult)

lemma ulp_pow: "(2::real) powr (- real n) = 1 / 2 ^ n"
  by (simp add: powr_minus_divide powr_realpow)

lemma ulp_0: "(2::real) powr (of_int 0 - 52) = 1 / 2 ^ 52"
  using ulp_pow[of 52] by simp

lemma round64_sqrt2: "round64 (sqrt 2) = 6369051672525773 / 2 ^ 52"
proof -
  have s: "sqrt 2 * 2 ^ 52 = sqrt (2 * (2 ^ 52)\<^sup>2)" by (rule sqrt2_times) simp
  have lo: "6369051672525772 + 1/2 < sqrt 2 * 2 ^ 52"
    unfolding s by (rule real_less_rsqrt) (simp add: power2_eq_square)
  have hi: "sqrt 2 * 2 ^ 52 < 6369051672525772 + 1"
    unfolding s by (rule real_less_lsqrt) (simp_all add: power2_eq_square)
  have "round_even (sqrt 2 * 2 ^ 52) = 6369051672525772 + 1"
    using lo hi by (intro round_even_up) simp_all
  then have r: "round_even (sqrt 2 / 2 powr (of_int 0 - 52)) = 6369051672525772 + 1"
    unfolding ulp_0 by simp
  have "(1::real) \<le> sqrt 2" by simp
  moreover have "sqrt 2 < 2" by (rule real_less_lsqrt) simp_all
  ultimately have "round64 (sqrt 2) = of_int (6369051672525772 + 1) * 2 powr (of_int 0 - 52)"
    using r by (intro round64_eval) simp_all
  then show ?thesis unfolding ulp_0 by simp
qed

text \<open>
  The rounding on known doubles: 0.1 is \<open>0x3FB999999999999A\<close>, and a number half way
  between two doubles goes to the one with the even significand.
\<close>

lemma round64_tenth: "round64 (1 / 10) = 3602879701896397 / 2 ^ 55"
proof -
  have u: "(2::real) powr (of_int (- 4) - 52) = 1 / 2 ^ 56"
    using ulp_pow[of 56] by simp
  have "round_even (1 / 10 * 2 ^ 56) = 7205759403792793 + 1"
    by (intro round_even_up) simp_all
  then have r: "round_even (1 / 10 / 2 powr (of_int (- 4) - 52)) = 7205759403792793 + 1"
    unfolding u by simp
  have p: "(2::real) powr (- 4) = 1 / 16" "(2::real) powr (- 3) = 1 / 8"
    using ulp_pow[of 4] ulp_pow[of 3] by simp_all
  have "round64 (1 / 10) = of_int (7205759403792793 + 1) * 2 powr (of_int (- 4) - 52)"
    using r by (intro round64_eval) (simp_all add: p)
  then show ?thesis unfolding u by simp
qed

lemma round64_ties:
  "round64 (1 + 1 / 2 ^ 53) = 1" "round64 (1 + 3 / 2 ^ 53) = 1 + 2 / 2 ^ 52"
proof -
  have f1: "\<lfloor>(1 + 1 / 2 ^ 53) * 2 ^ 52 :: real\<rfloor> = 2 ^ 52"
    by (intro floor_unique) simp_all
  have "round_even ((1 + 1 / 2 ^ 53) * 2 ^ 52) = 2 ^ 52"
    unfolding round_even_def Let_def f1 by simp
  then have r1: "round_even ((1 + 1 / 2 ^ 53) / 2 powr (of_int 0 - 52)) = 2 ^ 52"
    unfolding ulp_0 by simp
  have "round64 (1 + 1 / 2 ^ 53) = of_int (2 ^ 52) * 2 powr (of_int 0 - 52)"
    using r1 by (intro round64_eval) simp_all
  then show "round64 (1 + 1 / 2 ^ 53) = 1" unfolding ulp_0 by simp
  have f3: "\<lfloor>(1 + 3 / 2 ^ 53) * 2 ^ 52 :: real\<rfloor> = 2 ^ 52 + 1"
    by (intro floor_unique) simp_all
  have "round_even ((1 + 3 / 2 ^ 53) * 2 ^ 52) = 2 ^ 52 + 2"
    unfolding round_even_def Let_def f3 by simp
  then have r3: "round_even ((1 + 3 / 2 ^ 53) / 2 powr (of_int 0 - 52)) = 2 ^ 52 + 2"
    unfolding ulp_0 by simp
  have "round64 (1 + 3 / 2 ^ 53) = of_int (2 ^ 52 + 2) * 2 powr (of_int 0 - 52)"
    using r3 by (intro round64_eval) simp_all
  then show "round64 (1 + 3 / 2 ^ 53) = 1 + 2 / 2 ^ 52" unfolding ulp_0 by (simp add: field_simps)
qed

lemma round64_one: "round64 1 = 1"
proof -
  have "round_even (1 * 2 ^ 52) = 2 ^ 52" by (intro round_even_down) simp_all
  then have r: "round_even (1 / 2 powr (of_int 0 - 52)) = 2 ^ 52"
    unfolding ulp_0 by simp
  have "round64 1 = of_int (2 ^ 52) * 2 powr (of_int 0 - 52)"
    using r by (intro round64_eval) simp_all
  then show ?thesis unfolding ulp_0 by simp
qed

lemma ulp_m1: "(2::real) powr (of_int (- 1) - 52) = 1 / 2 ^ 53"
  using ulp_pow[of 53] by simp

lemma ulp_7: "(2::real) powr (of_int 7 - 52) = 1 / 2 ^ 45"
  using ulp_pow[of 45] by simp

lemma round64_recip:
  "round64 (1 / (6369051672525773 / 2 ^ 52)) = 6369051672525772 / 2 ^ 53"
proof -
  let ?x = "1 / (6369051672525773 / 2 ^ 52) :: real"
  have "round_even (?x * 2 ^ 53) = 6369051672525772"
    by (intro round_even_down) simp_all
  then have r: "round_even (?x / 2 powr (of_int (- 1) - 52)) = 6369051672525772"
    unfolding ulp_m1 by simp
  have "round64 ?x = of_int 6369051672525772 * 2 powr (of_int (- 1) - 52)"
    using r by (intro round64_eval) (simp_all add: powr_minus_divide)
  then show ?thesis unfolding ulp_m1 by simp
qed

lemma round64_scale:
  "round64 (6369051672525772 / 2 ^ 53 * 220) = 5473403781076835 / 2 ^ 45"
proof -
  let ?x = "6369051672525772 / 2 ^ 53 * 220 :: real"
  have "round_even (?x * 2 ^ 45) = 5473403781076835"
    by (intro round_even_down) simp_all
  then have r: "round_even (?x / 2 powr (of_int 7 - 52)) = 5473403781076835"
    unfolding ulp_7 by simp
  have p: "(2::real) powr 7 = 128" "(2::real) powr 8 = 256"
    using powr_realpow[of "2::real" 7] powr_realpow[of "2::real" 8] by simp_all
  have "round64 ?x = of_int 5473403781076835 * 2 powr (of_int 7 - 52)"
    using r by (intro round64_eval) (simp_all add: p)
  then show ?thesis unfolding ulp_7 by simp
qed

lemma velocity_component:
  assumes "d = 1 \<or> d = - 1"
  shows "round64 (round64 (d / (6369051672525773 / 2 ^ 52)) * PLAYER_SPEED) = d * diag_component"
proof -
  have pos: "round64 (round64 (1 / (6369051672525773 / 2 ^ 52)) * 220) = diag_component"
    unfolding round64_recip round64_scale diag_component_def ..
  have "round64 (round64 (- (1 / (6369051672525773 / 2 ^ 52))) * 220) = - diag_component"
    unfolding round64_minus mult_minus_left pos ..
  then show ?thesis using assms pos by (auto simp: PLAYER_SPEED_def)
qed

lemma move_player_diagonal:
  assumes "up (input p) \<noteq> down (input p)" "left (input p) \<noteq> right (input p)"
  shows "p_vx (move_player dt p) = dir_x (input p) * diag_component"
    and "p_vy (move_player dt p) = dir_y (input p) * diag_component"
proof -
  have d: "dir_x (input p) = 1 \<or> dir_x (input p) = - 1"
    "dir_y (input p) = 1 \<or> dir_y (input p) = - 1"
    using assms by (auto simp: dir_x_def dir_y_def)
  then have "dir_x (input p) * dir_x (input p) + dir_y (input p) * dir_y (input p) = 2"
    by auto
  then have h: "norm_len (dir_x (input p)) (dir_y (input p)) = 6369051672525773 / 2 ^ 52"
    by (simp add: norm_len_def round64_sqrt2)
  show "p_vx (move_player dt p) = dir_x (input p) * diag_component"
    using velocity_component[OF d(1)] by (simp add: move_player_def Let_def h)
  show "p_vy (move_player dt p) = dir_y (input p) * diag_component"
    using velocity_component[OF d(2)] by (simp add: move_player_def Let_def h)
qed

lemma diag_magnitude:
  assumes "a * a = 1" "b * b = 1"
  shows "\<bar>sqrt (a * diag_component * (a * diag_component) + b * diag_component * (b * diag_component))
          - 220\<bar> < 1 / 10 ^ 13"
    and "sqrt (a * diag_component * (a * diag_component) + b * diag_component * (b * diag_component))
          < 220"
proof -
  let ?m = "sqrt (a * diag_component * (a * diag_component) + b * diag_component * (b * diag_component))"
  have "a * diag_component * (a * diag_component) + b * diag_component * (b * diag_component)
        = (a * a) * (diag_component * diag_component) + (b * b) * (diag_component * diag_component)"
    by (simp add: mult_ac)
  then have e: "?m = sqrt (2 * (diag_component * diag_component))"
    unfolding assms by simp
  have lo: "220 - 1 / 10 ^ 13 < ?m"
    unfolding e by (rule real_less_rsqrt) (simp add: diag_component_def power2_eq_square)
  show hi: "?m < 220"
    unfolding e by (rule real_less_lsqrt) (simp_all add: diag_component_def power2_eq_square)
  show "\<bar>?m - 220\<bar> < 1 / 10 ^ 13" using lo hi by simp
qed

text \<open>
  Claim C8, amended. For a player that is alive and has one vertical and one horizontal
  direction key staged (exactly one of up and down, exactly one of left and right), the
  velocity after the tick has a magnitude within \<open>10^-13\<close> of the player speed: the
  direction is normalised before it is scaled, and the three operations round.
\<close>

theorem diagonal_speed:
  assumes "map_of (players w) sid = Some p" "alive p"
    "up (input p) \<noteq> down (input p)" "left (input p) \<noteq> right (input p)"
  shows "\<exists>p'. map_of (players (tick now rnd w)) sid = Some p' \<and>
              \<bar>sqrt (p_vx p' * p_vx p' + p_vy p' * p_vy p') - PLAYER_SPEED\<bar> < 1 / 10 ^ 13"
proof -
  obtain p' where p': "map_of (players (tick now rnd w)) sid = Some p'"
    "no_combat p' = no_combat (move_player (tick_dt now w) p)"
    using tick_alive_player[OF assms(1,2)] by blast
  have d: "dir_x (input p) * dir_x (input p) = 1" "dir_y (input p) * dir_y (input p) = 1"
    using assms(3,4) by (auto simp: dir_x_def dir_y_def)
  have v: "p_vx p' = dir_x (input p) * diag_component"
    "p_vy p' = dir_y (input p) * diag_component"
    using no_combat_fields[OF p'(2)] move_player_diagonal[OF assms(3,4)] by simp_all
  have "\<bar>sqrt (p_vx p' * p_vx p' + p_vy p' * p_vy p') - PLAYER_SPEED\<bar> < 1 / 10 ^ 13"
    unfolding v PLAYER_SPEED_def by (rule diag_magnitude(1)[OF d])
  with p'(1) show ?thesis by blast
qed

theorem diagonal_speed_witness:
  "map_of (players diag_world) ''a'' = Some diag_player \<and> alive diag_player \<and>
   up (input diag_player) \<noteq> down (input diag_player) \<and>
   left (input diag_player) \<noteq> right (input diag_player) \<and>
   (\<exists>p'. map_of (players (tick 100 (\<lambda>n. 0) diag_world)) ''a'' = Some p' \<and>
         \<bar>sqrt (p_vx p' * p_vx p' + p_vy p' * p_vy p') - 220\<bar> < 1 / 10 ^ 13)"
  using diag_world_player diagonal_speed[of diag_world "''a''" diag_player 100 "\<lambda>n. 0"]
  by (simp add: diag_player_def new_player_def idle_input_def PLAYER_SPEED_def)

text \<open>
  Claim C8 as stated fails: with up and right staged, the tick gives the player the
  velocity (155.56349186104043, -155.56349186104043), whose magnitude is below the
  player speed 220, not equal to it.
\<close>

theorem diagonal_speed_not_exact:
  "reachable diag_world \<and> map_of (players diag_world) ''a'' = Some diag_player \<and>
   alive diag_player \<and> up (input diag_player) \<and> right (input diag_player) \<and>
   \<not> down (input diag_player) \<and> \<not> left (input diag_player) \<and>
   map_option (\<lambda>p. (p_vx p, p_vy p)) (map_of (players (tick 100 (\<lambda>n. 0) diag_world)) ''a'')
     = Some (5473403781076835 / 2 ^ 45, - (5473403781076835 / 2 ^ 45)) \<and>
   sqrt (5473403781076835 / 2 ^ 45 * (5473403781076835 / 2 ^ 45) +
         - (5473403781076835 / 2 ^ 45) * - (5473403781076835 / 2 ^ 45)) \<noteq> PLAYER_SPEED"
proof -
  have i: "up (input diag_player)" "right (input diag_player)"
    "\<not> down (input diag_player)" "\<not> left (input diag_player)" "alive diag_player"
    by (simp_all add: diag_player_def idle_input_def new_player_def)
  obtain p' where p': "map_of (players (tick 100 (\<lambda>n. 0) diag_world)) ''a'' = Some p'"
    "no_combat p' = no_combat (move_player (tick_dt 100 diag_world) diag_player)"
    using tick_alive_player[OF diag_world_player i(5)] by blast
  have "p_vx p' = diag_component" "p_vy p' = - diag_component"
    using no_combat_fields[OF p'(2)] move_player_diagonal[of diag_player] i
    by (simp_all add: dir_x_def dir_y_def)
  then have v: "map_option (\<lambda>p. (p_vx p, p_vy p))
                  (map_of (players (tick 100 (\<lambda>n. 0) diag_world)) ''a'')
                = Some (diag_component, - diag_component)"
    using p'(1) by simp
  have "sqrt (diag_component * diag_component + - diag_component * - diag_component) < 220"
    using diag_magnitude(2)[of 1 "- 1"] by simp
  then have m: "sqrt (diag_component * diag_component + - diag_component * - diag_component)
                \<noteq> PLAYER_SPEED"
    by (simp add: PLAYER_SPEED_def)
  have r: "reachable diag_world"
    unfolding diag_world_def by (rule r_input) (rule reachable_world1)
  show ?thesis using i v m r diag_world_player
    unfolding diag_component_def by simp
qed

text \<open>
  Claim C7, where the code departs from it. The tick sets the facing angle by
  \<open>p.angle = p.input.mouseAngle || p.angle\<close>, and 0 is falsy: a player that aimed along
  angle 1 and then stages the aim angle 0 keeps facing along 1.
\<close>

theorem zero_aim_angle_not_applied:
  "map_option (\<lambda>p. mouseAngle (input p)) (map_of (players aim_world) ''a'') = Some 0 \<and>
   map_option angle (map_of (players aim_world) ''a'') = Some 1 \<and>
   map_option alive (map_of (players aim_world) ''a'') = Some True \<and>
   map_option angle (map_of (players (tick 200 (\<lambda>n. 0) aim_world)) ''a'') = Some 1"
  by (simp add: aim_world_def msg_aim_def msg_none_def world1_def connection_def
      init_world_def on_input_def stage_def new_player_def tick_def tick_dt_def
      update_player_def move_player_def bullet_step_def Let_def)

subsection \<open>The input handler\<close>

lemma input_event_fields: "input_event sid (Fields m) now w = Inr (on_input sid m now w)"
  by (simp add: input_event_def on_input_def split: option.splits)

lemma update_fresh: "k \<notin> fst ` set al \<Longrightarrow> AList.update k v al = al @ [(k, v)]"
  by (induction al) auto

lemma on_input_player:
  assumes "map_of (players w) sid = Some p"
  shows "map_of (players (on_input sid m now w)) sid =
         Some (if truthy (m_shoot m) \<and> SHOOT_COOLDOWN \<le> now - lastShot p \<and> alive p
               then p\<lparr>input := stage m (input p), lastShot := now\<rparr>
               else p\<lparr>input := stage m (input p)\<rparr>)"
  using assms by (simp add: on_input_def Let_def update_conv')

lemma on_input_bullets:
  assumes "map_of (players w) sid = Some p"
  shows "bullets (on_input sid m now w) =
         (if truthy (m_shoot m) \<and> SHOOT_COOLDOWN \<le> now - lastShot p \<and> alive p
          then AList.update (nextBulletId w)
                 (new_bullet sid (nextBulletId w) now (p\<lparr>input := stage m (input p)\<rparr>))
                 (bullets w)
          else bullets w)"
  using assms by (simp add: on_input_def Let_def)

text \<open>
  Claim C1, amended. For a player of a reachable world: an input message that arrives
  less than the cooldown after the player's last accepted shot creates no bullet, and
  neither does any message for a player that is not alive; a message with a truthy
  shoot field that arrives at or after the cooldown for a player that is alive appends
  exactly one bullet, under a fresh id, owned by that player and born now, and
  records now as the time of the last accepted shot.
\<close>

theorem shoot_cooldown:
  assumes "reachable w" "map_of (players w) sid = Some p"
  shows "(now - lastShot p < SHOOT_COOLDOWN \<longrightarrow> bullets (on_input sid m now w) = bullets w) \<and>
         (\<not> alive p \<longrightarrow> bullets (on_input sid m now w) = bullets w) \<and>
         (truthy (m_shoot m) \<and> alive p \<and> SHOOT_COOLDOWN \<le> now - lastShot p \<longrightarrow>
            nextBulletId w \<notin> fst ` set (bullets w) \<and>
            (\<exists>b. bullets (on_input sid m now w) = bullets w @ [(nextBulletId w, b)] \<and>
                 ownerId b = sid \<and> born b = now) \<and>
            map_option lastShot (map_of (players (on_input sid m now w)) sid) = Some now)"
proof -
  have fresh: "nextBulletId w \<notin> fst ` set (bullets w)"
    using reachable_world_ok[OF assms(1)] by (auto simp: world_ok_def)
  show ?thesis
    using fresh
    by (simp add: on_input_bullets[OF assms(2)] on_input_player[OF assms(2)] update_fresh
          new_bullet_def Let_def)
qed

theorem shoot_cooldown_witness:
  "reachable wounded_world \<and> map_of (players wounded_world) ''a'' = Some (player_a 3000) \<and>
   3100 - lastShot (player_a 3000) < SHOOT_COOLDOWN \<and>
   bullets (on_input ''a'' msg_fire 3100 wounded_world) = bullets wounded_world \<and>
   truthy (m_shoot msg_fire) \<and> alive (player_a 3000) \<and>
   SHOOT_COOLDOWN \<le> 3200 - lastShot (player_a 3000) \<and>
   (\<exists>b. bullets (on_input ''a'' msg_fire 3200 wounded_world)
          = bullets wounded_world @ [(nextBulletId wounded_world, b)] \<and>
        ownerId b = ''a'' \<and> born b = 3200) \<and>
   reachable dead_world \<and> map_of (players dead_world) ''b'' = Some (player_b 0 False 6100) \<and>
   \<not> alive (player_b 0 False 6100) \<and>
   bullets (on_input ''b'' msg_fire 5000 dead_world) = bullets dead_world"
  using reachable_wounded reachable_dead
    shoot_cooldown[of wounded_world "''a''" "player_a 3000" 3100 msg_fire]
    shoot_cooldown[of wounded_world "''a''" "player_a 3000" 3200 msg_fire]
    shoot_cooldown[of dead_world "''b''" "player_b 0 False 6100" 5000 msg_fire]
  by (simp add: wounded_world_def dead_world_def duel_world_def player_a_def player_b_def
        msg_fire_def msg_none_def SHOOT_COOLDOWN_def)

text \<open>
  Claim C1 as stated fails for a dead player: \<open>b\<close> is dead in a reachable world, its
  last shot is more than the cooldown ago, and its shoot request creates no bullet.
\<close>

theorem dead_player_cannot_shoot:
  "reachable dead_world \<and> map_of (players dead_world) ''b'' = Some (player_b 0 False 6100) \<and>
   m_shoot msg_fire = JBool True \<and>
   SHOOT_COOLDOWN \<le> 5000 - lastShot (player_b 0 False 6100) \<and>
   bullets (on_input ''b'' msg_fire 5000 dead_world) = bullets dead_world"
  using reachable_dead
  by (simp add: dead_world_def duel_world_def player_a_def player_b_def on_input_def
        msg_fire_def msg_none_def SHOOT_COOLDOWN_def Let_def)

text \<open>
  Claim C2, amended. For a message to a present player: each of the four staged
  directions becomes the truthiness of the message's field (false when the field is
  absent, whatever was staged before); the staged aim angle becomes the field when it
  is a number and keeps its value otherwise; and a message whose shoot field is not
  truthy creates no bullet and leaves the time of the last shot.
\<close>

theorem input_staging:
  assumes "map_of (players w) sid = Some p"
  shows "\<exists>p'. map_of (players (on_input sid m now w)) sid = Some p' \<and>
     up (input p') = truthy (m_up m) \<and> down (input p') = truthy (m_down m) \<and>
     left (input p') = truthy (m_left m) \<and> right (input p') = truthy (m_right m) \<and>
     mouseAngle (input p') = (if is_number (m_mouseAngle m) then num_of (m_mouseAngle m)
                              else mouseAngle (input p)) \<and>
     (\<not> truthy (m_shoot m) \<longrightarrow>
        bullets (on_input sid m now w) = bullets w \<and> lastShot p' = lastShot p)"
  by (simp add: on_input_bullets[OF assms] on_input_player[OF assms] stage_def)

theorem input_staging_witness:
  "map_of (players diag_world) ''a'' = Some diag_player \<and>
   (\<exists>p'. map_of (players (on_input ''a'' (msg_aim 2) 70 diag_world)) ''a'' = Some p' \<and>
      \<not> up (input p') \<and> \<not> down (input p') \<and> \<not> left (input p') \<and> \<not> right (input p') \<and>
      mouseAngle (input p') = 2 \<and> lastShot p' = 0) \<and>
   (\<exists>p'. map_of (players (on_input ''a'' (msg_none\<lparr>m_mouseAngle := JStr ''x''\<rparr>) 70
                           (on_input ''a'' (msg_aim 2) 70 diag_world))) ''a'' = Some p' \<and>
      mouseAngle (input p') = 2) \<and>
   bullets (on_input ''a'' (msg_aim 2) 70 diag_world) = bullets diag_world"
proof -
  obtain q where q: "map_of (players (on_input ''a'' (msg_aim 2) 70 diag_world)) ''a'' = Some q"
     "\<not> up (input q) \<and> \<not> down (input q) \<and> \<not> left (input q) \<and> \<not> right (input q) \<and>
      mouseAngle (input q) = 2 \<and> lastShot q = 0"
     "bullets (on_input ''a'' (msg_aim 2) 70 diag_world) = bullets diag_world"
    using diag_world_player input_staging[of diag_world "''a''" diag_player "msg_aim 2" 70]
    by (auto simp: msg_aim_def msg_none_def diag_player_def new_player_def)
  have "\<exists>p'. map_of (players (on_input ''a'' (msg_none\<lparr>m_mouseAngle := JStr ''x''\<rparr>) 70
                           (on_input ''a'' (msg_aim 2) 70 diag_world))) ''a'' = Some p' \<and>
      mouseAngle (input p') = 2"
    using input_staging[OF q(1), of "msg_none\<lparr>m_mouseAngle := JStr ''x''\<rparr>" 70] q(2)
    by (auto simp: msg_none_def)
  with q diag_world_player show ?thesis by blast
qed

text \<open>
  Claim C2 as stated fails twice: a message without the field \<open>up\<close> resets a staged
  \<open>up = true\<close> to false, and the shoot field 1, which is not the boolean true,
  fires a bullet.
\<close>

theorem absent_direction_resets:
  "map_option (\<lambda>p. up (input p)) (map_of (players up_world) ''a'') = Some True \<and>
   m_up msg_none = JUndefined \<and>
   map_option (\<lambda>p. up (input p)) (map_of (players (on_input ''a'' msg_none 60 up_world)) ''a'')
     = Some False \<and>
   m_shoot (msg_none\<lparr>m_shoot := JNum 1\<rparr>) \<noteq> JBool True \<and>
   bullets (on_input ''a'' (msg_none\<lparr>m_shoot := JNum 1\<rparr>) 1000 world1) \<noteq> bullets world1"
  by (simp add: up_world_def world1_def connection_def init_world_def on_input_def stage_def
        msg_none_def new_player_def SHOOT_COOLDOWN_def Let_def)


subsection \<open>Bullets\<close>

lemma collide_shape:
  "(\<not> snd (collide now b ps) \<and> fst (collide now b ps) = ps \<and>
      (\<forall>e \<in> set ps. \<not> (eligible b (fst e) (snd e) \<and> overlaps (snd e) b))) \<or>
   (\<exists>xs pid p ys. ps = xs @ (pid, p) # ys \<and> eligible b pid p \<and> overlaps p b \<and>
      (\<forall>e \<in> set xs. \<not> (eligible b (fst e) (snd e) \<and> overlaps (snd e) b)) \<and>
      fst (collide now b ps) = xs @ (pid, hit now p) # ys \<and> snd (collide now b ps))"
proof (induction ps)
  case Nil
  then show ?case by simp
next
  case (Cons e ps)
  obtain pid p where e: "e = (pid, p)" by (cases e)
  show ?case
  proof (cases "eligible b pid p \<and> overlaps p b")
    case True
    then have "fst (collide now b (e # ps)) = [] @ (pid, hit now p) # ps"
      "snd (collide now b (e # ps))"
      by (auto simp: e eligible_def)
    with True show ?thesis unfolding e by (intro disjI2) (metis append_Nil empty_iff list.set(1))
  next
    case False
    then have step: "fst (collide now b (e # ps)) = (pid, p) # fst (collide now b ps)"
      "snd (collide now b (e # ps)) = snd (collide now b ps)"
      by (auto simp: e eligible_def)
    from Cons.IH show ?thesis
    proof (elim disjE exE conjE)
      assume "\<not> snd (collide now b ps)" "fst (collide now b ps) = ps"
        "\<forall>e \<in> set ps. \<not> (eligible b (fst e) (snd e) \<and> overlaps (snd e) b)"
      then show ?thesis using False step by (simp add: e)
    next
      fix xs q qid ys
      assume h: "ps = xs @ (qid, q) # ys" "eligible b qid q" "overlaps q b"
        "\<forall>e \<in> set xs. \<not> (eligible b (fst e) (snd e) \<and> overlaps (snd e) b)"
        "fst (collide now b ps) = xs @ (qid, hit now q) # ys" "snd (collide now b ps)"
      have "e # ps = ((pid, p) # xs) @ (qid, q) # ys" using h(1) by (simp add: e)
      moreover have "\<forall>e \<in> set ((pid, p) # xs). \<not> (eligible b (fst e) (snd e) \<and> overlaps (snd e) b)"
        using h(4) False by simp
      moreover have "fst (collide now b (e # ps)) = ((pid, p) # xs) @ (qid, hit now q) # ys"
        using step(1) h(5) by simp
      ultimately show ?thesis using h(2,3,6) step(2) by blast
    qed
  qed
qed

lemma collide_hit_iff:
  "snd (collide now b ps) \<longleftrightarrow> (\<exists>e \<in> set ps. eligible b (fst e) (snd e) \<and> overlaps (snd e) b)"
  using collide_shape[of now b ps] by auto

lemma terminal_born: "born (move_bullet dt b) = born b" "ownerId (move_bullet dt b) = ownerId b"
  by (simp_all add: move_bullet_def)

lemma bullet_step_result:
  "snd (bullet_step now dt ps b) =
   (if terminal now (move_bullet dt b) ps then None else Some (move_bullet dt b))"
  by (simp add: bullet_step_def terminal_def Let_def collide_hit_iff)

lemma update_bullets_lookup:
  "distinct (map fst bs) \<Longrightarrow> i < length bs \<Longrightarrow>
   map_of (snd (update_bullets now dt ps bs)) (fst (bs ! i)) =
   snd (bullet_step now dt (fst (update_bullets now dt ps (take i bs))) (snd (bs ! i)))"
proof (induction bs arbitrary: i ps)
  case Nil
  then show ?case by simp
next
  case (Cons e bs)
  obtain n b where e: "e = (n, b)" by (cases e)
  let ?r = "bullet_step now dt ps b"
  let ?rest = "update_bullets now dt (fst ?r) bs"
  have keys: "fst ` set (snd ?rest) \<subseteq> fst ` set bs" by (rule update_bullets_ids)
  have n: "n \<notin> fst ` set bs" using Cons.prems(1) by (simp add: e)
  show ?case
  proof (cases i)
    case 0
    have "map_of (snd ?rest) n = None" using keys n by (auto simp: map_of_eq_None_iff)
    then show ?thesis by (simp add: 0 e Let_def split: option.splits)
  next
    case (Suc j)
    then have j: "j < length bs" using Cons.prems(2) by simp
    then have "fst (bs ! j) \<in> fst ` set bs" by simp
    then have ne: "fst (bs ! j) \<noteq> n" using n by metis
    have "map_of (snd ?rest) (fst (bs ! j)) =
          snd (bullet_step now dt (fst (update_bullets now dt (fst ?r) (take j bs))) (snd (bs ! j)))"
      using Cons.IH[OF _ j] Cons.prems(1) by simp
    then show ?thesis using ne by (simp add: Suc e Let_def split: option.splits)
  qed
qed

lemma tick_bullet:
  assumes "distinct (map fst (bullets w))" "i < length (bullets w)"
  shows "map_of (bullets (tick now rnd w)) (fst (bullets w ! i)) =
         snd (bullet_step now (tick_dt now w) (players_at now rnd w i) (snd (bullets w ! i)))"
  using update_bullets_lookup[OF assms]
  by (simp add: tick_def players_at_def Let_def)

lemma update_bullets_snoc:
  "i < length bs \<Longrightarrow>
   fst (update_bullets now dt ps (take (Suc i) bs)) =
   fst (bullet_step now dt (fst (update_bullets now dt ps (take i bs))) (snd (bs ! i)))"
proof (induction bs arbitrary: i ps)
  case Nil
  then show ?case by simp
next
  case (Cons e bs)
  obtain n b where e: "e = (n, b)" by (cases e)
  show ?case
  proof (cases i)
    case 0
    then show ?thesis by (simp add: e Let_def)
  next
    case (Suc j)
    then have "j < length bs" using Cons.prems by simp
    from Cons.IH[OF this] show ?thesis by (simp add: Suc e Let_def)
  qed
qed

lemma players_at_Suc:
  "i < length (bullets w) \<Longrightarrow>
   players_at now rnd w (Suc i) =
   fst (bullet_step now (tick_dt now w) (players_at now rnd w i) (snd (bullets w ! i)))"
  unfolding players_at_def by (rule update_bullets_snoc)

lemma bullet_step_shape:
  "(fst (bullet_step now dt ps b) = ps) \<or>
   (\<exists>xs pid p ys. ps = xs @ (pid, p) # ys \<and> pid \<noteq> ownerId b \<and> alive p \<and>
      fst (bullet_step now dt ps b) = xs @ (pid, hit now p) # ys \<and>
      snd (bullet_step now dt ps b) = None)"
proof (cases "snd (collide now (move_bullet dt b) ps)")
  case False
  then have "fst (collide now (move_bullet dt b) ps) = ps"
    using collide_shape[of now "move_bullet dt b" ps] by blast
  then show ?thesis by (simp add: bullet_step_def Let_def)
next
  case True
  then obtain xs pid p ys where h: "ps = xs @ (pid, p) # ys" "eligible (move_bullet dt b) pid p"
    "fst (collide now (move_bullet dt b) ps) = xs @ (pid, hit now p) # ys"
    using collide_shape[of now "move_bullet dt b" ps] by blast
  show ?thesis
  proof (cases "now - born (move_bullet dt b) > BULLET_LIFETIME \<or> out_of_bounds (move_bullet dt b)")
    case True
    then show ?thesis by (auto simp: bullet_step_def Let_def)
  next
    case False
    then have "fst (bullet_step now dt ps b) = xs @ (pid, hit now p) # ys"
      "snd (bullet_step now dt ps b) = None"
      using h(3) \<open>snd (collide now (move_bullet dt b) ps)\<close> by (auto simp: bullet_step_def Let_def)
    moreover have "pid \<noteq> ownerId b" "alive p"
      using h(2) by (auto simp: eligible_def terminal_born)
    ultimately show ?thesis using h(1) by blast
  qed
qed

lemma fired_world_eq:
  "fired_world = (duel_world 1000 100 True 0 2 100)\<lparr>bullets := [(1, duel_bullet 1 1000)]\<rparr>"
  unfolding fired_world_def by (simp add: duel_fire numeral_2_eq_2)

lemma reachable_fired: "reachable fired_world"
  unfolding fired_world_def by (rule r_input) (rule reachable_duel0)

lemma solo_fired_eq:
  "solo_fired = \<lparr>players = [(''a'', player_a 1000)], bullets = [(1, duel_bullet 1 1000)],
                  nextBulletId = 2, lastTick = 0\<rparr>"
  by (simp add: solo_fired_def world1_def connection_def init_world_def new_player_def
      on_input_def stage_def new_bullet_def spawn_coord_def duel_defs game_consts Let_def)

lemma reachable_solo_fired: "reachable solo_fired"
  unfolding solo_fired_def by (rule r_input) (rule reachable_world1)

lemma fired_players_at:
  "players_at 1100 (\<lambda>n. 0) fired_world 0 = [(''a'', player_a 1000), (''b'', player_b 100 True 0)]"
  "players_at 1100 (\<lambda>n. 0) fired_world (Suc 0) = [(''a'', player_a 1000), (''b'', player_b 75 True 0)]"
  by (simp_all add: players_at_def fired_world_eq tick_dt_def duel_defs update_player_def
      move_player_def dir_x_def dir_y_def norm_len_def clamp_coord_def bullet_step_def
      move_bullet_def out_of_bounds_def overlaps_def hit_def game_consts Let_def)

lemma on_input_ids:
  "nextBulletId w \<le> nextBulletId (on_input sid m now w) \<and>
   fst ` set (bullets (on_input sid m now w)) \<subseteq> insert (nextBulletId w) (fst ` set (bullets w))"
  by (auto simp: on_input_def Let_def dom_update split: option.splits)

lemma tick_ids:
  "nextBulletId (tick now rnd w) = nextBulletId w \<and>
   fst ` set (bullets (tick now rnd w)) \<subseteq> fst ` set (bullets w)"
  using update_bullets_ids by (simp add: tick_def Let_def)

lemma removed_stays_removed:
  "later w w' \<Longrightarrow> n < nextBulletId w \<Longrightarrow> n \<notin> fst ` set (bullets w) \<Longrightarrow>
   n < nextBulletId w' \<and> n \<notin> fst ` set (bullets w')"
proof (induction rule: later.induct)
  case (l_now w)
  then show ?case by simp
next
  case (l_connection w w' sid rx ry)
  then show ?case by (simp add: connection_def)
next
  case (l_input w w' sid m now)
  then show ?case using on_input_ids[of w' sid m now] by auto
next
  case (l_disconnect w w' sid)
  then show ?case by (simp add: disconnect_def)
next
  case (l_tick w w' now rnd)
  then show ?case using tick_ids[of now rnd w'] by auto
qed

text \<open>
  Claim C3, amended. For every bullet of a reachable world and every tick: after the
  tick the bullet is gone if, as moved by that tick, its age exceeds the lifetime
  (strictly), or it is outside the world by more than the margin on some side, or it
  overlaps a player that is alive and not its owner; otherwise it is still there,
  moved. A bullet that a tick has removed is in no later world.
\<close>

theorem bullet_removal:
  assumes "reachable w" "i < length (bullets w)" "bullets w ! i = (n, b)"
  shows "map_of (bullets (tick now rnd w)) n =
         (if terminal now (move_bullet (tick_dt now w) b) (players_at now rnd w i) then None
          else Some (move_bullet (tick_dt now w) b)) \<and>
         (terminal now (move_bullet (tick_dt now w) b) (players_at now rnd w i) \<longrightarrow>
            (\<forall>w'. later (tick now rnd w) w' \<longrightarrow> map_of (bullets w') n = None))"
proof -
  have ok: "world_ok w" using assms(1) by (rule reachable_world_ok)
  then have "distinct (map fst (bullets w))" by (simp add: world_ok_def)
  from tick_bullet[OF this assms(2)]
  have 1: "map_of (bullets (tick now rnd w)) n =
         (if terminal now (move_bullet (tick_dt now w) b) (players_at now rnd w i) then None
          else Some (move_bullet (tick_dt now w) b))"
    by (simp add: assms(3) bullet_step_result)
  have "(n, b) \<in> set (bullets w)" using assms(2,3) nth_mem by fastforce
  then have "n \<in> fst ` set (bullets w)" by force
  then have "n < nextBulletId w" using ok unfolding world_ok_def by blast
  then have lt: "n < nextBulletId (tick now rnd w)"
    using tick_ids[of now rnd w] by simp
  have "map_of (bullets w') n = None"
    if "terminal now (move_bullet (tick_dt now w) b) (players_at now rnd w i)"
      "later (tick now rnd w) w'" for w'
  proof -
    have "n \<notin> fst ` set (bullets (tick now rnd w))"
      using 1 that(1) by (simp add: map_of_eq_None_iff)
    from removed_stays_removed[OF that(2) lt this] show ?thesis
      by (simp add: map_of_eq_None_iff)
  qed
  with 1 show ?thesis by blast
qed


theorem bullet_removal_witness:
  "reachable fired_world \<and> 0 < length (bullets fired_world) \<and>
   bullets fired_world ! 0 = (1, duel_bullet 1 1000) \<and>
   terminal 1100 (move_bullet (tick_dt 1100 fired_world) (duel_bullet 1 1000))
     (players_at 1100 (\<lambda>n. 0) fired_world 0) \<and>
   map_of (bullets (tick 1100 (\<lambda>n. 0) fired_world)) 1 = None \<and>
   later (tick 1100 (\<lambda>n. 0) fired_world)
     (on_input ''a'' msg_fire 2000 (tick 1100 (\<lambda>n. 0) fired_world)) \<and>
   map_of (bullets (on_input ''a'' msg_fire 2000 (tick 1100 (\<lambda>n. 0) fired_world))) 1 = None \<and>
   reachable solo_fired \<and> 0 < length (bullets solo_fired) \<and>
   bullets solo_fired ! 0 = (1, duel_bullet 1 1000) \<and>
   \<not> terminal 1100 (move_bullet (tick_dt 1100 solo_fired) (duel_bullet 1 1000))
     (players_at 1100 (\<lambda>n. 0) solo_fired 0) \<and>
   map_of (bullets (tick 1100 (\<lambda>n. 0) solo_fired)) 1 = Some ((duel_bullet 1 1000)\<lparr>b_x := 682\<rparr>)"
proof -
  have b: "bullets fired_world ! 0 = (1, duel_bullet 1 1000)" "0 < length (bullets fired_world)"
    by (simp_all add: fired_world_eq)
  have t: "terminal 1100 (move_bullet (tick_dt 1100 fired_world) (duel_bullet 1 1000))
     (players_at 1100 (\<lambda>n. 0) fired_world 0)"
    unfolding fired_players_at
    by (simp add: terminal_def fired_world_eq tick_dt_def duel_defs move_bullet_def
        eligible_def overlaps_def game_consts Let_def)
  have l: "later (tick 1100 (\<lambda>n. 0) fired_world)
     (on_input ''a'' msg_fire 2000 (tick 1100 (\<lambda>n. 0) fired_world))"
    by (rule l_input) (rule l_now)
  have c: "bullets solo_fired ! 0 = (1, duel_bullet 1 1000)" "0 < length (bullets solo_fired)"
    by (simp_all add: solo_fired_eq)
  have p: "players_at 1100 (\<lambda>n. 0) solo_fired 0 = [(''a'', player_a 1000)]"
    by (simp add: players_at_def solo_fired_eq tick_dt_def duel_defs update_player_def
      move_player_def dir_x_def dir_y_def norm_len_def clamp_coord_def game_consts Let_def)
  have m: "move_bullet (tick_dt 1100 solo_fired) (duel_bullet 1 1000) = (duel_bullet 1 1000)\<lparr>b_x := 682\<rparr>"
    by (simp add: solo_fired_eq tick_dt_def move_bullet_def duel_bullet_def)
  have nt: "\<not> terminal 1100 (move_bullet (tick_dt 1100 solo_fired) (duel_bullet 1 1000))
     (players_at 1100 (\<lambda>n. 0) solo_fired 0)"
    unfolding p m
    by (simp add: terminal_def duel_defs eligible_def out_of_bounds_def game_consts)
  show ?thesis
    using bullet_removal[OF reachable_fired b(2) b(1), of 1100 "\<lambda>n. 0"]
      bullet_removal[OF reachable_solo_fired c(2) c(1), of 1100 "\<lambda>n. 0"]
      reachable_fired reachable_solo_fired b c t nt m l
    by simp
qed

text \<open>
  Claim C3 as stated fails at an age equal to the lifetime: the test is
  \<open>now - b.born > BULLET_LIFETIME\<close>, so a bullet born at 1000 is still there after
  the tick at 3000.
\<close>

theorem bullet_survives_at_lifetime:
  "reachable solo_fired \<and> bullets solo_fired = [(1, duel_bullet 1 1000)] \<and>
   BULLET_LIFETIME \<le> 3000 - born (move_bullet (tick_dt 3000 solo_fired) (duel_bullet 1 1000)) \<and>
   map_of (bullets (tick 3000 (\<lambda>n. 0) solo_fired)) 1 = Some ((duel_bullet 1 1000)\<lparr>b_x := 682\<rparr>)"
  using reachable_solo_fired
  by (simp add: solo_fired_eq tick_def tick_dt_def duel_defs update_player_def
      move_player_def dir_x_def dir_y_def norm_len_def clamp_coord_def bullet_step_def
      move_bullet_def out_of_bounds_def overlaps_def game_consts Let_def)

text \<open>
  Claim C4. For every bullet of a reachable world and every tick, the loop body for
  that bullet either leaves all players as they are, or it hits exactly one player,
  who is alive and is not the bullet's owner, and the bullet is gone after the tick.
  So a bullet that is still there has damaged nobody, and a bullet that has damaged
  a player is removed at once: over its existence it damages at most one player, and
  never its owner.
\<close>

theorem bullet_damage:
  assumes "reachable w" "i < length (bullets w)" "bullets w ! i = (n, b)"
  shows "players_at now rnd w (Suc i) = players_at now rnd w i \<or>
   (\<exists>xs pid p ys. players_at now rnd w i = xs @ (pid, p) # ys \<and> pid \<noteq> ownerId b \<and> alive p \<and>
      players_at now rnd w (Suc i) = xs @ (pid, hit now p) # ys \<and>
      map_of (bullets (tick now rnd w)) n = None)"
proof -
  have "distinct (map fst (bullets w))"
    using reachable_world_ok[OF assms(1)] by (simp add: world_ok_def)
  from tick_bullet[OF this assms(2), of now rnd]
  have "map_of (bullets (tick now rnd w)) n =
        snd (bullet_step now (tick_dt now w) (players_at now rnd w i) b)"
    by (simp add: assms(3))
  then show ?thesis
    using bullet_step_shape[of now "tick_dt now w" "players_at now rnd w i" b]
      players_at_Suc[OF assms(2), of now rnd]
    by (simp add: assms(3))
qed

theorem bullet_damage_witness:
  "reachable fired_world \<and> 0 < length (bullets fired_world) \<and>
   bullets fired_world ! 0 = (1, duel_bullet 1 1000) \<and>
   players_at 1100 (\<lambda>n. 0) fired_world 0 = [(''a'', player_a 1000), (''b'', player_b 100 True 0)] \<and>
   players_at 1100 (\<lambda>n. 0) fired_world (Suc 0) = [(''a'', player_a 1000), (''b'', player_b 75 True 0)] \<and>
   ''b'' \<noteq> ownerId (duel_bullet 1 1000) \<and>
   hit 1100 (player_b 100 True 0) = player_b 75 True 0 \<and>
   map_of (bullets (tick 1100 (\<lambda>n. 0) fired_world)) 1 = None"
proof -
  have b: "bullets fired_world ! 0 = (1, duel_bullet 1 1000)" "0 < length (bullets fired_world)"
    by (simp_all add: fired_world_eq)
  have neq: "players_at 1100 (\<lambda>n. 0) fired_world (Suc 0) \<noteq> players_at 1100 (\<lambda>n. 0) fired_world 0"
    by (simp add: fired_players_at player_b_def)
  from bullet_damage[OF reachable_fired b(2) b(1), of 1100 "\<lambda>n. 0"] neq
  have "map_of (bullets (tick 1100 (\<lambda>n. 0) fired_world)) 1 = None" by blast
  moreover have "hit 1100 (player_b 100 True 0) = player_b 75 True 0"
    by (simp add: hit_def player_b_def Let_def)
  ultimately show ?thesis using reachable_fired b fired_players_at
    by (simp add: duel_bullet_def)
qed


end
